theory Spec2Isabelle
  imports Complex_Main "HOL-Library.Word"
begin

section \<open>BackUpFreeSpace: back\_up\_free\_space.cpp\<close>

text \<open>
  The behaviour \<^verbatim>\<open>pb_nav2_behaviors::BackUpFreeSpace\<close> is embedded function by
  function. C++ \<^verbatim>\<open>float\<close> and \<^verbatim>\<open>double\<close> values are idealised as
  \<^typ>\<open>real\<close>: every sum, product, quotient and comparison is exact, and
  \<^verbatim>\<open>std::cos\<close>, \<^verbatim>\<open>std::sin\<close> are \<^term>\<open>cos\<close> and \<^term>\<open>sin\<close>. Rounding is
  therefore outside the model. A call that does not return a defined value (a loop that
  never ends, a read outside \<^verbatim>\<open>costmap.data\<close>, the cast of \<^verbatim>\<open>0/0\<close> to
  \<^verbatim>\<open>int\<close>) has the value \<^term>\<open>None\<close>. Logging and the marker publishing of
  \<^verbatim>\<open>visualize\<close> and \<^verbatim>\<open>visualizeline\<close> do not feed back into any returned value
  and are left out; with them goes the need of \<^verbatim>\<open>visualizeline\<close>, which
  \<^verbatim>\<open>findBestDirection\<close> always calls, for the line publisher that \<^verbatim>\<open>onConfigure\<close>
  creates only when \<^verbatim>\<open>visualize_\<close> is set: the model describes the calls in which that
  publisher exists.
\<close>

subsection \<open>Messages\<close>

text \<open>\<^verbatim>\<open>nav2_msgs::msg::CostmapMetaData\<close> (the fields the source reads) and
  \<^verbatim>\<open>nav2_msgs::msg::Costmap\<close>; \<^verbatim>\<open>size_x\<close>, \<^verbatim>\<open>size_y\<close> are \<^verbatim>\<open>uint32\<close>,
  \<^verbatim>\<open>data\<close> is a \<^verbatim>\<open>uint8\<close> vector.\<close>

record CostmapMetaData =
  resolution :: real
  origin_position_x :: real
  origin_position_y :: real
  size_x :: "32 word"
  size_y :: "32 word"

record Costmap =
  metadata :: CostmapMetaData
  data :: "8 word list"

text \<open>\<^verbatim>\<open>geometry_msgs::msg::Pose2D\<close>.\<close>

record Pose2D =
  pose_x :: real
  pose_y :: real
  pose_theta :: real

subsection \<open>findBestDirection: one sampled point of a ray\<close>

text \<open>\<^verbatim>\<open>static_cast<int>\<close> of a floating-point value truncates toward zero.\<close>

definition static_cast_int :: "real \<Rightarrow> int" where
  "static_cast_int v = (if 0 \<le> v then \<lfloor>v\<rfloor> else \<lceil>v\<rceil>)"

text \<open>\<^verbatim>\<open>costmap.data[idx]\<close> for an \<^verbatim>\<open>int\<close> index that is not negative: the read is
  defined only inside the vector, and only when \<^verbatim>\<open>i + j * size_x\<close> has not overflowed
  the 32-bit \<^verbatim>\<open>int\<close>.\<close>

definition data_at :: "Costmap \<Rightarrow> int \<Rightarrow> 8 word option" where
  "data_at costmap idx =
     (if 0 \<le> idx \<and> idx < 2 ^ 31 \<and> nat idx < length (data costmap)
      then Some (data costmap ! nat idx) else None)"

text \<open>The sampled point \<^verbatim>\<open>(x, y)\<close> at distance \<^verbatim>\<open>r\<close> along the ray.\<close>

definition ray_x :: "Pose2D \<Rightarrow> real \<Rightarrow> real \<Rightarrow> real" where
  "ray_x pose angle r = pose_x pose + r * cos angle"

definition ray_y :: "Pose2D \<Rightarrow> real \<Rightarrow> real \<Rightarrow> real" where
  "ray_y pose angle r = pose_y pose + r * sin angle"

text \<open>The outer test of line 213, on the coordinates: \<^verbatim>\<open>map_min_x\<close> is the origin and
  \<^verbatim>\<open>map_max_x\<close> is \<^verbatim>\<open>origin_x + size_x * resolution\<close>, with \<^verbatim>\<open>int size_x\<close> read
  from the unsigned field.\<close>

definition in_map :: "Costmap \<Rightarrow> real \<Rightarrow> real \<Rightarrow> bool" where
  "in_map costmap x y =
     (let res = resolution (metadata costmap);
          origin_x = origin_position_x (metadata costmap);
          origin_y = origin_position_y (metadata costmap);
          map_min_x = origin_x;
          map_max_x = origin_x + real_of_int (sint (size_x (metadata costmap))) * res;
          map_min_y = origin_y;
          map_max_y = origin_y + real_of_int (sint (size_y (metadata costmap))) * res
      in x \<ge> map_min_x \<and> x \<le> map_max_x \<and> y \<ge> map_min_y \<and> y \<le> map_max_y)"

text \<open>The cell indices of lines 214 and 215.\<close>

definition cell_i :: "Costmap \<Rightarrow> real \<Rightarrow> int" where
  "cell_i costmap x =
     static_cast_int ((x - origin_position_x (metadata costmap)) / resolution (metadata costmap))"

definition cell_j :: "Costmap \<Rightarrow> real \<Rightarrow> int" where
  "cell_j costmap y =
     static_cast_int ((y - origin_position_y (metadata costmap)) / resolution (metadata costmap))"

text \<open>The inner test of line 217, on the indices.\<close>

definition in_grid :: "Costmap \<Rightarrow> int \<Rightarrow> int \<Rightarrow> bool" where
  "in_grid costmap i j =
     (i \<ge> 0 \<and> i < sint (size_x (metadata costmap)) \<and>
      j \<ge> 0 \<and> j < sint (size_y (metadata costmap)))"

text \<open>The body of the inner loop (source lines 210 to 229) for one value of \<^verbatim>\<open>r\<close>.
  \<^term>\<open>Some True\<close>: the loop goes on to the next \<^verbatim>\<open>r\<close>;
  \<^term>\<open>Some False\<close>: \<^verbatim>\<open>is_safe = false; break\<close>. With a zero resolution the
  quotient cast at line 214 is \<^verbatim>\<open>0/0\<close>, whose cast is undefined.\<close>

definition sample_ok :: "Costmap \<Rightarrow> Pose2D \<Rightarrow> real \<Rightarrow> real \<Rightarrow> bool option" where
  "sample_ok costmap pose angle r =
     (let x = ray_x pose angle r;
          y = ray_y pose angle r
      in if in_map costmap x y then
           if resolution (metadata costmap) = 0 then None
           else
             let i = cell_i costmap x;
                 j = cell_j costmap y
             in if in_grid costmap i j then
                  (case data_at costmap (i + j * sint (size_x (metadata costmap))) of
                     None \<Rightarrow> None
                   | Some v \<Rightarrow> if v \<ge> 253 then Some False else Some True)
                else Some False
         else Some False)"

subsection \<open>findBestDirection: the two loops\<close>

text \<open>The inner loop \<^verbatim>\<open>for (float r = 0; r <= radius; r += resolution)\<close>, entered at
  \<^verbatim>\<open>r\<close>; its value is \<^verbatim>\<open>is_safe\<close> at the loop's exit.\<close>

partial_function (option) ray_loop ::
  "Costmap \<Rightarrow> Pose2D \<Rightarrow> real \<Rightarrow> real \<Rightarrow> real \<Rightarrow> bool option" where
  "ray_loop costmap pose angle radius r =
     (if r \<le> radius then
        (case sample_ok costmap pose angle r of
           None \<Rightarrow> None
         | Some ok \<Rightarrow>
             if ok then ray_loop costmap pose angle radius (r + resolution (metadata costmap))
             else Some False)
      else Some True)"

definition heading_is_safe :: "Costmap \<Rightarrow> Pose2D \<Rightarrow> real \<Rightarrow> real \<Rightarrow> bool option" where
  "heading_is_safe costmap pose angle radius = ray_loop costmap pose angle radius 0"

text \<open>The four tracking variables of the sweep.\<close>

record tracker =
  first_safe_angle :: real
  last_unsafe_angle :: real
  final_safe_angle :: real
  final_unsafe_angle :: real

definition initial_tracker :: tracker where
  "initial_tracker =
     \<lparr>first_safe_angle = - 1, last_unsafe_angle = - 1,
      final_safe_angle = 0, final_unsafe_angle = 0\<rparr>"

text \<open>The three \<^verbatim>\<open>if\<close> statements that end the body of the outer loop
  (source lines 231 to 246), one definition each, and their sequence \<open>track\<close>.\<close>

definition open_arc :: "tracker \<Rightarrow> real \<Rightarrow> bool \<Rightarrow> tracker" where
  "open_arc t angle is_safe =
     (if is_safe \<and> first_safe_angle t = - 1
      then t\<lparr>first_safe_angle := angle\<rparr> else t)"

definition close_arc :: "tracker \<Rightarrow> real \<Rightarrow> bool \<Rightarrow> tracker" where
  "close_arc t angle is_safe =
     (if \<not> is_safe \<and> first_safe_angle t \<noteq> - 1 \<and> last_unsafe_angle t = - 1
      then t\<lparr>last_unsafe_angle := angle\<rparr> else t)"

definition keep_widest :: "tracker \<Rightarrow> tracker" where
  "keep_widest t =
     (if last_unsafe_angle t - first_safe_angle t
           > final_unsafe_angle t - final_safe_angle t
         \<and> first_safe_angle t \<noteq> - 1 \<and> last_unsafe_angle t \<noteq> - 1
      then t\<lparr>final_safe_angle := first_safe_angle t,
              final_unsafe_angle := last_unsafe_angle t,
              first_safe_angle := - 1,
              last_unsafe_angle := - 1\<rparr>
      else t)"

definition track :: "tracker \<Rightarrow> real \<Rightarrow> bool \<Rightarrow> tracker" where
  "track t angle is_safe = keep_widest (close_arc (open_arc t angle is_safe) angle is_safe)"

text \<open>The outer loop
  \<^verbatim>\<open>for (float angle = start_angle; angle <= end_angle; angle += angle_increment)\<close>,
  entered at \<^verbatim>\<open>angle\<close> with the tracking variables \<^verbatim>\<open>t\<close>.\<close>

partial_function (option) angle_loop ::
  "Costmap \<Rightarrow> Pose2D \<Rightarrow> real \<Rightarrow> real \<Rightarrow> real \<Rightarrow> real \<Rightarrow> tracker \<Rightarrow> tracker option" where
  "angle_loop costmap pose end_angle radius angle_increment angle t =
     (if angle \<le> end_angle then
        (case heading_is_safe costmap pose angle radius of
           None \<Rightarrow> None
         | Some is_safe \<Rightarrow>
             angle_loop costmap pose end_angle radius angle_increment
               (angle + angle_increment) (track t angle is_safe))
      else Some t)"

definition findBestDirection ::
  "Costmap \<Rightarrow> Pose2D \<Rightarrow> real \<Rightarrow> real \<Rightarrow> real \<Rightarrow> real \<Rightarrow> real option" where
  "findBestDirection costmap pose start_angle end_angle radius angle_increment =
     (case angle_loop costmap pose end_angle radius angle_increment start_angle
             initial_tracker of
        None \<Rightarrow> None
      | Some t \<Rightarrow> Some ((final_safe_angle t + final_unsafe_angle t) / 2))"


subsection \<open>The behaviour object and its configuration\<close>

text \<open>\<^verbatim>\<open>nav2_behaviors::Status\<close>.\<close>

datatype Status = SUCCEEDED | FAILED | RUNNING

text \<open>A \<^verbatim>\<open>geometry_msgs::msg::PoseStamped\<close>, reduced to what the source reads of it:
  the position and \<^verbatim>\<open>tf2::getYaw\<close> of the orientation.\<close>

record PoseStamped =
  position_x :: real
  position_y :: real
  yaw :: real

text \<open>The data members that the source file assigns or reads, named without the
  trailing underscore of the source (\<^verbatim>\<open>max_radius_\<close> is \<open>max_radius\<close>). Durations and
  time points are counts of nanoseconds, as in \<^verbatim>\<open>rclcpp\<close>; \<open>feedback_distance_traveled\<close>
  is \<^verbatim>\<open>feedback_->distance_traveled\<close>.\<close>

record BackUpFreeSpace =
  global_frame :: string
  robot_radius :: real
  max_radius :: real
  service_name :: string
  free_threshold :: int
  visualize :: bool
  initial_pose :: PoseStamped
  twist_x :: real
  twist_y :: real
  command_x :: real
  command_time_allowance :: int
  end_time :: int
  feedback_distance_traveled :: real





subsection \<open>onRun\<close>

text \<open>The \<^verbatim>\<open>BackUpAction::Goal\<close>.\<close>

record Goal =
  target_x :: real
  speed :: real
  time_allowance :: int

text \<open>What the surroundings answer during one call of \<^verbatim>\<open>onRun\<close>:
  \<^term>\<open>wait_for_service e k\<close> is the result of the \<open>k\<close>-th call (from 0) of
  \<^verbatim>\<open>wait_for_service(std::chrono::seconds(1))\<close>, each of which blocks for at most one
  second; \<^term>\<open>rclcpp_ok e k\<close> is what \<^verbatim>\<open>rclcpp::ok()\<close> returns after that call
  failed; \<^term>\<open>costmap_result e\<close> is \<^term>\<open>None\<close> when the future times out; each
  \<^verbatim>\<open>getCurrentPose\<close> gives its return value and the pose it wrote.\<close>

record RunEnv =
  wait_for_service :: "nat \<Rightarrow> bool"
  rclcpp_ok :: "nat \<Rightarrow> bool"
  costmap_result :: "Costmap option"
  first_pose :: "bool \<times> PoseStamped"
  clock_now :: int
  second_pose :: "bool \<times> PoseStamped"

text \<open>The loop of lines 73 to 79, about to make call number \<open>k\<close>. Its value is
  whether the service was found (otherwise \<^verbatim>\<open>onRun\<close> returns \<^verbatim>\<open>FAILED\<close> from inside
  the loop) and how many one-second waits were made.\<close>

partial_function (option) wait_loop ::
  "(nat \<Rightarrow> bool) \<Rightarrow> (nat \<Rightarrow> bool) \<Rightarrow> nat \<Rightarrow> (bool \<times> nat) option" where
  "wait_loop service_found ok k =
     (if \<not> service_found k then
        (if \<not> ok k then Some (False, Suc k)
         else wait_loop service_found ok (Suc k))
      else Some (True, Suc k))"

definition onRun ::
  "BackUpFreeSpace \<Rightarrow> RunEnv \<Rightarrow> Goal \<Rightarrow> (Status \<times> BackUpFreeSpace) option" where
  "onRun self env command =
     (case wait_loop (wait_for_service env) (rclcpp_ok env) 0 of
        None \<Rightarrow> None
      | Some (found, waits) \<Rightarrow>
          if \<not> found then Some (FAILED, self)
          else
            (case costmap_result env of
               None \<Rightarrow> Some (FAILED, self)
             | Some costmap \<Rightarrow>
                 let self1 = self\<lparr>initial_pose := snd (first_pose env)\<rparr>
                 in if \<not> fst (first_pose env) then Some (FAILED, self1)
                    else
                      let pose = \<lparr>pose_x = position_x (initial_pose self1),
                                  pose_y = position_y (initial_pose self1),
                                  pose_theta = yaw (initial_pose self1)\<rparr>
                      in (case findBestDirection costmap pose (- pi) pi (max_radius self1)
                                 (pi / 32) of
                            None \<Rightarrow> None
                          | Some best_angle \<Rightarrow>
                              let self2 = self1\<lparr>
                                    twist_x := cos best_angle * speed command,
                                    twist_y := sin best_angle * speed command,
                                    command_x := target_x command,
                                    command_time_allowance := time_allowance command,
                                    end_time := clock_now env + time_allowance command,
                                    initial_pose := snd (second_pose env)\<rparr>
                              in if \<not> fst (second_pose env) then Some (FAILED, self2)
                                 else Some (SUCCEEDED, self2))))"

subsection \<open>onCycleUpdate\<close>








subsection \<open>Vocabulary of the properties\<close>



text \<open>The condition of the third \<^verbatim>\<open>if\<close> of the sweep.\<close>

definition arc_pending :: "tracker \<Rightarrow> bool" where
  "arc_pending t =
     (last_unsafe_angle t - first_safe_angle t > final_unsafe_angle t - final_safe_angle t
      \<and> first_safe_angle t \<noteq> - 1 \<and> last_unsafe_angle t \<noteq> - 1)"


text \<open>The arc that the sweep has selected so far: its two boundary angles.\<close>

definition chosen_arc :: "tracker \<Rightarrow> real \<times> real" where
  "chosen_arc t = (final_safe_angle t, final_unsafe_angle t)"



subsection \<open>Concrete inputs\<close>

text \<open>A grid of three by three cells of one metre with its origin at \<open>(0, 0)\<close>, and
  the pose at the centre of the middle cell. With a radius of one metre a ray is sampled
  at \<open>r = 0\<close> (the middle cell, index 4) and \<open>r = 1\<close>: cell 5 to the east (heading
  \<open>0\<close>), cell 7 to the north (\<open>\<pi>/2\<close>), cell 3 to the west (\<open>\<pi>\<close>), cell 1 to the
  south (\<open>3\<pi>/2\<close>).\<close>

definition grid3 :: "8 word list \<Rightarrow> Costmap" where
  "grid3 cells =
     \<lparr>metadata = \<lparr>resolution = 1, origin_position_x = 0, origin_position_y = 0,
                  size_x = 3, size_y = 3\<rparr>,
      data = cells\<rparr>"

definition centre :: Pose2D where
  "centre = \<lparr>pose_x = 3 / 2, pose_y = 3 / 2, pose_theta = 0\<rparr>"

definition wall_north :: Costmap where
  "wall_north = grid3 [0, 0, 0, 0, 0, 0, 0, 254, 0]"

definition wall_east_north :: Costmap where
  "wall_east_north = grid3 [0, 0, 0, 0, 0, 254, 0, 254, 0]"

definition all_free :: Costmap where
  "all_free = grid3 (replicate 9 0)"


text \<open>A behaviour in the middle of a maneuver: reference pose at the origin, two metres
  to go, five seconds allowed, deadline at five seconds.\<close>

definition at_origin :: PoseStamped where
  "at_origin = \<lparr>position_x = 0, position_y = 0, yaw = 0\<rparr>"

definition backing_up :: BackUpFreeSpace where
  "backing_up =
     \<lparr>global_frame = ''map'', robot_radius = 1 / 10, max_radius = 1,
      service_name = ''local_costmap/get_costmap'', free_threshold = 5, visualize = False,
      initial_pose = at_origin, twist_x = - 1 / 2, twist_y = 0, command_x = 2,
      command_time_allowance = 5000000000, end_time = 5000000000,
      feedback_distance_traveled = 0\<rparr>"





text \<open>Answers of the service wait: never there, there from the third call on; the
  process never shutting down.\<close>

definition service_never :: "nat \<Rightarrow> bool" where
  "service_never k = False"

definition service_from_third_call :: "nat \<Rightarrow> bool" where
  "service_from_third_call k = (2 \<le> k)"

definition shutdown_never :: "nat \<Rightarrow> bool" where
  "shutdown_never k = True"

definition shutdown_after_second_call :: "nat \<Rightarrow> bool" where
  "shutdown_after_second_call k = (k < 1)"

definition goal_two_metres :: Goal where
  "goal_two_metres = \<lparr>target_x = 2, speed = 1 / 2, time_allowance = 5000000000\<rparr>"

definition run_env :: "(nat \<Rightarrow> bool) \<Rightarrow> (nat \<Rightarrow> bool) \<Rightarrow> RunEnv" where
  "run_env service ok =
     \<lparr>wait_for_service = service, rclcpp_ok = ok, costmap_result = Some all_free,
      first_pose = (True, \<lparr>position_x = 3 / 2, position_y = 3 / 2, yaw = 0\<rparr>),
      clock_now = 0,
      second_pose = (True, \<lparr>position_x = 3 / 2, position_y = 3 / 2, yaw = 0\<rparr>)\<rparr>"


section \<open>Properties of the sweep\<close>

subsection \<open>The tracking variables\<close>

lemma keep_widest_idle: "\<not> arc_pending t \<Longrightarrow> keep_widest t = t"
  unfolding keep_widest_def arc_pending_def by (rule if_not_P)





lemma track_unsafe_unset:
  "first_safe_angle t = - 1 \<Longrightarrow> track t angle False = t"
  by (simp add: track_def open_arc_def close_arc_def keep_widest_def)

lemma track_safe_open:
  assumes "last_unsafe_angle t = - 1"
  shows "last_unsafe_angle (track t angle True) = - 1 \<and>
     chosen_arc (track t angle True) = chosen_arc t"
proof -
  have "last_unsafe_angle (open_arc t angle True) = - 1"
    using assms by (simp add: open_arc_def)
  then have "\<not> arc_pending (close_arc (open_arc t angle True) angle True)"
    by (simp add: close_arc_def arc_pending_def)
  then have "track t angle True = open_arc t angle True"
    by (simp add: track_def keep_widest_idle close_arc_def)
  then show ?thesis using assms by (simp add: open_arc_def chosen_arc_def)
qed


subsection \<open>The outer loop\<close>

lemma angle_loop_exit:
  "end_angle < angle \<Longrightarrow>
     angle_loop costmap pose end_angle radius inc angle t = Some t"
  by (subst angle_loop.simps) simp

lemma angle_loop_step:
  "angle \<le> end_angle \<Longrightarrow>
     angle_loop costmap pose end_angle radius inc angle t =
       (case heading_is_safe costmap pose angle radius of
          None \<Rightarrow> None
        | Some is_safe \<Rightarrow>
            angle_loop costmap pose end_angle radius inc (angle + inc) (track t angle is_safe))"
  by (subst angle_loop.simps) simp

lemma sweep_bound: "0 < inc \<Longrightarrow> \<exists>n. (end_angle::real) < angle + real n * inc"
proof -
  assume "0 < inc"
  then obtain n where "end_angle - angle < real n * inc"
    using ex_less_of_nat_mult by blast
  then show ?thesis by (intro exI [of _ n]) simp
qed

lemma next_heading: "angle + inc + real k * inc = angle + real (Suc k) * (inc::real)"
  by (simp add: algebra_simps)

lemma angle_loop_never_closed:
  assumes "end_angle < angle + real n * inc"
    and "\<forall>k. angle + real k * inc \<le> end_angle \<longrightarrow>
           heading_is_safe costmap pose (angle + real k * inc) radius = Some (m \<le> k)"
    and "last_unsafe_angle t = - 1"
    and "first_safe_angle t \<noteq> - 1 \<longrightarrow> m = 0"
  shows "\<exists>t'. angle_loop costmap pose end_angle radius inc angle t = Some t' \<and>
           chosen_arc t' = chosen_arc t"
  using assms
proof (induction n arbitrary: angle m t)
  case 0
  then show ?case by (simp add: angle_loop_exit)
next
  case (Suc n)
  show ?case
  proof (cases "angle \<le> end_angle")
    case False
    then show ?thesis by (simp add: angle_loop_exit)
  next
    case True
    from Suc.prems(2) [rule_format, of 0] True
    have h: "heading_is_safe costmap pose angle radius = Some (m = 0)" by simp
    have shift: "\<forall>k. angle + inc + real k * inc \<le> end_angle \<longrightarrow>
           heading_is_safe costmap pose (angle + inc + real k * inc) radius = Some (m - 1 \<le> k)"
    proof (intro allI impI)
      fix k assume "angle + inc + real k * inc \<le> end_angle"
      with Suc.prems(2) [rule_format, of "Suc k"]
      have "heading_is_safe costmap pose (angle + inc + real k * inc) radius = Some (m \<le> Suc k)"
        by (simp add: next_heading)
      moreover have "(m \<le> Suc k) = (m - 1 \<le> k)" by arith
      ultimately show "heading_is_safe costmap pose (angle + inc + real k * inc) radius
          = Some (m - 1 \<le> k)" by simp
    qed
    have bound: "end_angle < angle + inc + real n * inc"
      using Suc.prems(1) by (simp add: algebra_simps)
    let ?t = "track t angle (m = 0)"
    have keep: "last_unsafe_angle ?t = - 1 \<and> chosen_arc ?t = chosen_arc t
        \<and> (first_safe_angle ?t \<noteq> - 1 \<longrightarrow> m - 1 = 0)"
    proof (cases "m = 0")
      case True
      with track_safe_open [OF Suc.prems(3), of angle] show ?thesis
        by simp
    next
      case False
      with Suc.prems(4) have "first_safe_angle t = - 1" by blast
      with False Suc.prems(3) show ?thesis by (simp add: track_unsafe_unset)
    qed
    from Suc.IH [OF bound shift, of ?t] keep
    obtain t' where "angle_loop costmap pose end_angle radius inc (angle + inc) ?t = Some t'"
      and "chosen_arc t' = chosen_arc t" by auto
    with True h show ?thesis by (simp add: angle_loop_step)
  qed
qed





lemma findBestDirection_chosen:
  "findBestDirection costmap pose start_angle end_angle radius inc =
     map_option (\<lambda>(a, b). (a + b) / 2)
       (map_option chosen_arc
          (angle_loop costmap pose end_angle radius inc start_angle initial_tracker))"
  by (simp add: findBestDirection_def chosen_arc_def split: option.splits)

subsection \<open>Arcs that are closed inside the sweep\<close>

lemma track_opens:
  assumes "first_safe_angle t = - 1" and "last_unsafe_angle t = - 1"
  shows "track t angle True = t\<lparr>first_safe_angle := angle\<rparr>"
proof -
  have "\<not> arc_pending (t\<lparr>first_safe_angle := angle\<rparr>)"
    using assms(2) by (simp add: arc_pending_def)
  then show ?thesis
    using assms(1) by (simp add: track_def open_arc_def close_arc_def keep_widest_idle)
qed

lemma track_stays_open:
  assumes "first_safe_angle t \<noteq> - 1" and "last_unsafe_angle t = - 1"
  shows "track t angle True = t"
proof -
  have "\<not> arc_pending t" using assms(2) by (simp add: arc_pending_def)
  then show ?thesis
    using assms(1) by (simp add: track_def open_arc_def close_arc_def keep_widest_idle)
qed

lemma track_closes:
  assumes "first_safe_angle t \<noteq> - 1" and "last_unsafe_angle t = - 1" and "angle \<noteq> - 1"
  shows "track t angle False =
     (if angle - first_safe_angle t > final_unsafe_angle t - final_safe_angle t
      then t\<lparr>final_safe_angle := first_safe_angle t, final_unsafe_angle := angle,
             first_safe_angle := - 1, last_unsafe_angle := - 1\<rparr>
      else t\<lparr>last_unsafe_angle := angle\<rparr>)"
proof -
  have "close_arc (open_arc t angle False) angle False = t\<lparr>last_unsafe_angle := angle\<rparr>"
    using assms(1,2) by (simp add: open_arc_def close_arc_def)
  then have "track t angle False = keep_widest (t\<lparr>last_unsafe_angle := angle\<rparr>)"
    by (simp add: track_def)
  also have "\<dots> = (if angle - first_safe_angle t > final_unsafe_angle t - final_safe_angle t
      then t\<lparr>final_safe_angle := first_safe_angle t, final_unsafe_angle := angle,
             first_safe_angle := - 1, last_unsafe_angle := - 1\<rparr>
      else t\<lparr>last_unsafe_angle := angle\<rparr>)"
    using assms(1,3) by (simp add: keep_widest_def)
  finally show ?thesis .
qed

lemma track_stuck:
  assumes "first_safe_angle t \<noteq> - 1" and "last_unsafe_angle t \<noteq> - 1"
    and "\<not> arc_pending t"
  shows "track t angle is_safe = t"
proof -
  have "close_arc (open_arc t angle is_safe) angle is_safe = t"
    using assms(1,2) by (simp add: open_arc_def close_arc_def)
  then show ?thesis using assms(3) by (simp add: track_def keep_widest_idle)
qed

lemma heading_after: "angle + real k * inc + inc = angle + real (Suc k) * (inc::real)"
  by (simp add: algebra_simps)

text \<open>One free arc, from the heading number \<open>a\<close> up to the unsafe heading number
  \<open>b\<close> that closes it within the sweep, neither of the two angles being the marker
  \<open>-1\<close>: the loop ends with that arc selected.\<close>

lemma angle_loop_single_arc:
  assumes "0 < inc"
    and "\<forall>k. start + real k * inc \<le> end_angle \<longrightarrow>
           heading_is_safe costmap pose (start + real k * inc) radius = Some (a \<le> k \<and> k < b)"
    and "a < b" and "start + real b * inc \<le> end_angle"
    and "start + real a * inc \<noteq> - 1" and "start + real b * inc \<noteq> - 1"
    and "end_angle < start + real (k + n) * inc"
    and "t = (if k \<le> a then initial_tracker
              else if k \<le> b then
                \<lparr>first_safe_angle = start + real a * inc, last_unsafe_angle = - 1,
                 final_safe_angle = 0, final_unsafe_angle = 0\<rparr>
              else
                \<lparr>first_safe_angle = - 1, last_unsafe_angle = - 1,
                 final_safe_angle = start + real a * inc,
                 final_unsafe_angle = start + real b * inc\<rparr>)"
  shows "angle_loop costmap pose end_angle radius inc (start + real k * inc) t =
     Some \<lparr>first_safe_angle = - 1, last_unsafe_angle = - 1,
           final_safe_angle = start + real a * inc,
           final_unsafe_angle = start + real b * inc\<rparr>"
  using assms(7,8)
proof (induction n arbitrary: k t)
  case 0
  then have past: "end_angle < start + real k * inc" by simp
  with assms(4) have "start + real b * inc < start + real k * inc" by simp
  with assms(1) have "b < k" by simp
  with assms(3) "0.prems"(2) past show ?case by (simp add: angle_loop_exit)
next
  case (Suc n)
  let ?angle = "start + real k * inc"
  let ?opened = "\<lparr>first_safe_angle = start + real a * inc, last_unsafe_angle = - 1,
      final_safe_angle = 0, final_unsafe_angle = 0\<rparr>"
  let ?chosen = "\<lparr>first_safe_angle = - 1, last_unsafe_angle = - 1,
      final_safe_angle = start + real a * inc, final_unsafe_angle = start + real b * inc\<rparr>"
  show ?case
  proof (cases "?angle \<le> end_angle")
    case False
    with assms(4) have "start + real b * inc < ?angle" by simp
    with assms(1) have "b < k" by simp
    with assms(3) Suc.prems(2) False show ?thesis by (simp add: angle_loop_exit)
  next
    case True
    with assms(2) have safe: "heading_is_safe costmap pose ?angle radius = Some (a \<le> k \<and> k < b)"
      by simp
    have bound: "end_angle < start + real (Suc k + n) * inc" using Suc.prems(1) by simp
    have width: "0 < start + real b * inc - (start + real a * inc)"
      using assms(1,3) by simp
    have next_t: "track t ?angle (a \<le> k \<and> k < b) =
        (if Suc k \<le> a then initial_tracker else if Suc k \<le> b then ?opened else ?chosen)"
    proof -
      consider "k < a" | "k = a" | "a < k \<and> k < b" | "k = b" | "b < k" by linarith
      then show ?thesis
      proof cases
        case 1
        with Suc.prems(2) show ?thesis
          by (simp add: track_unsafe_unset initial_tracker_def)
      next
        case 2
        with Suc.prems(2) assms(3) show ?thesis
          by (simp add: track_opens initial_tracker_def)
      next
        case 3
        with Suc.prems(2) assms(5) show ?thesis by (simp add: track_stays_open)
      next
        case 4
        with Suc.prems(2) assms(3,5,6) width show ?thesis by (simp add: track_closes)
      next
        case 5
        with Suc.prems(2) assms(3) show ?thesis by (simp add: track_unsafe_unset)
      qed
    qed
    from Suc.IH [OF bound next_t]
    have "angle_loop costmap pose end_angle radius inc (start + real (Suc k) * inc)
        (track t ?angle (a \<le> k \<and> k < b)) = Some ?chosen" .
    with True safe show ?thesis
      by (simp only: angle_loop_step heading_after option.case)
  qed
qed

lemma single_closed_arc_midpoint:
  assumes "0 < inc"
    and "\<forall>k. start + real k * inc \<le> end_angle \<longrightarrow>
           heading_is_safe costmap pose (start + real k * inc) radius = Some (a \<le> k \<and> k < b)"
    and "a < b" and "start + real b * inc \<le> end_angle"
    and "start + real a * inc \<noteq> - 1" and "start + real b * inc \<noteq> - 1"
  shows "findBestDirection costmap pose start end_angle radius inc =
     Some ((start + real a * inc + (start + real b * inc)) / 2)"
proof -
  obtain n where "end_angle < start + real n * inc"
    using sweep_bound [OF assms(1)] by blast
  then have bound: "end_angle < start + real (0 + n) * inc" by simp
  have "angle_loop costmap pose end_angle radius inc (start + real 0 * inc) initial_tracker =
      Some \<lparr>first_safe_angle = - 1, last_unsafe_angle = - 1,
           final_safe_angle = start + real a * inc,
           final_unsafe_angle = start + real b * inc\<rparr>"
    by (rule angle_loop_single_arc [OF assms bound]) simp
  then show ?thesis by (simp add: findBestDirection_def)
qed

text \<open>Two free arcs, the headings from number \<open>a\<close> to the closing \<open>b\<close> and from
  number \<open>c\<close> to the closing \<open>d\<close>, both closed within the sweep and none of the
  four angles being the marker \<open>-1\<close>: the loop ends with the second arc selected when
  it is strictly wider, and with the first arc otherwise.\<close>

lemma angle_loop_two_arcs:
  assumes "0 < inc"
    and "\<forall>k. start + real k * inc \<le> end_angle \<longrightarrow>
           heading_is_safe costmap pose (start + real k * inc) radius
             = Some (a \<le> k \<and> k < b \<or> c \<le> k \<and> k < d)"
    and "a < b" and "b < c" and "c < d" and "start + real d * inc \<le> end_angle"
    and "start + real a * inc \<noteq> - 1" and "start + real b * inc \<noteq> - 1"
    and "start + real c * inc \<noteq> - 1" and "start + real d * inc \<noteq> - 1"
    and "result =
           (if start + real d * inc - (start + real c * inc)
                 > start + real b * inc - (start + real a * inc)
            then \<lparr>first_safe_angle = - 1, last_unsafe_angle = - 1,
                  final_safe_angle = start + real c * inc,
                  final_unsafe_angle = start + real d * inc\<rparr>
            else \<lparr>first_safe_angle = start + real c * inc,
                  last_unsafe_angle = start + real d * inc,
                  final_safe_angle = start + real a * inc,
                  final_unsafe_angle = start + real b * inc\<rparr>)"
    and "end_angle < start + real (k + n) * inc"
    and "t = (if k \<le> a then initial_tracker
              else if k \<le> b then
                \<lparr>first_safe_angle = start + real a * inc, last_unsafe_angle = - 1,
                 final_safe_angle = 0, final_unsafe_angle = 0\<rparr>
              else if k \<le> c then
                \<lparr>first_safe_angle = - 1, last_unsafe_angle = - 1,
                 final_safe_angle = start + real a * inc,
                 final_unsafe_angle = start + real b * inc\<rparr>
              else if k \<le> d then
                \<lparr>first_safe_angle = start + real c * inc, last_unsafe_angle = - 1,
                 final_safe_angle = start + real a * inc,
                 final_unsafe_angle = start + real b * inc\<rparr>
              else result)"
  shows "angle_loop costmap pose end_angle radius inc (start + real k * inc) t = Some result"
  using assms(12,13)
proof (induction n arbitrary: k t)
  case 0
  then have past: "end_angle < start + real k * inc" by simp
  with assms(6) have "start + real d * inc < start + real k * inc" by simp
  with assms(1) have "d < k" by simp
  with assms(3,4,5) "0.prems"(2) past show ?case by (simp add: angle_loop_exit)
next
  case (Suc n)
  let ?angle = "start + real k * inc"
  let ?A = "start + real a * inc" and ?B = "start + real b * inc"
  let ?C = "start + real c * inc" and ?D = "start + real d * inc"
  let ?first_open = "\<lparr>first_safe_angle = ?A, last_unsafe_angle = - 1,
      final_safe_angle = 0, final_unsafe_angle = 0\<rparr>"
  let ?first_chosen = "\<lparr>first_safe_angle = - 1, last_unsafe_angle = - 1,
      final_safe_angle = ?A, final_unsafe_angle = ?B\<rparr>"
  let ?second_open = "\<lparr>first_safe_angle = ?C, last_unsafe_angle = - 1,
      final_safe_angle = ?A, final_unsafe_angle = ?B\<rparr>"
  let ?safe = "a \<le> k \<and> k < b \<or> c \<le> k \<and> k < d"
  show ?case
  proof (cases "?angle \<le> end_angle")
    case False
    with assms(6) have "?D < ?angle" by simp
    with assms(1) have "d < k" by simp
    with assms(3,4,5) Suc.prems(2) False show ?thesis by (simp add: angle_loop_exit)
  next
    case True
    with assms(2) have safe: "heading_is_safe costmap pose ?angle radius = Some ?safe"
      by simp
    have bound: "end_angle < start + real (Suc k + n) * inc" using Suc.prems(1) by simp
    have width: "0 < ?B - ?A" using assms(1,3) by simp
    have next_t: "track t ?angle ?safe =
        (if Suc k \<le> a then initial_tracker
         else if Suc k \<le> b then ?first_open
         else if Suc k \<le> c then ?first_chosen
         else if Suc k \<le> d then ?second_open
         else result)"
    proof -
      consider "k < a" | "k = a" | "a < k \<and> k < b" | "k = b" | "b < k \<and> k < c"
        | "k = c" | "c < k \<and> k < d" | "k = d" | "d < k" by linarith
      then show ?thesis
      proof cases
        case 1
        with Suc.prems(2) assms(3,4,5) show ?thesis
          by (simp add: track_unsafe_unset initial_tracker_def)
      next
        case 2
        with Suc.prems(2) assms(3,4,5) show ?thesis
          by (simp add: track_opens initial_tracker_def)
      next
        case 3
        with Suc.prems(2) assms(3,4,5,7) show ?thesis by (simp add: track_stays_open)
      next
        case 4
        with Suc.prems(2) assms(3,4,5,7,8) width show ?thesis by (simp add: track_closes)
      next
        case 5
        with Suc.prems(2) assms(3,4,5) show ?thesis by (simp add: track_unsafe_unset)
      next
        case 6
        with Suc.prems(2) assms(3,4,5) show ?thesis by (simp add: track_opens)
      next
        case 7
        with Suc.prems(2) assms(3,4,5,9) show ?thesis by (simp add: track_stays_open)
      next
        case 8
        have "track ?second_open ?D False = result"
          using assms(9,10,11) by (simp add: track_closes)
        with 8 Suc.prems(2) assms(3,4,5) show ?thesis by simp
      next
        case 9
        have "track result ?angle False = result"
        proof (cases "?D - ?C > ?B - ?A")
          case True
          with assms(11) show ?thesis by (simp add: track_unsafe_unset)
        next
          case False
          with assms(11) have shape: "result = \<lparr>first_safe_angle = ?C, last_unsafe_angle = ?D,
              final_safe_angle = ?A, final_unsafe_angle = ?B\<rparr>" by simp
          have "\<not> arc_pending result" using False by (simp add: shape arc_pending_def)
          moreover have "first_safe_angle result \<noteq> - 1" "last_unsafe_angle result \<noteq> - 1"
            using assms(9,10) by (simp_all add: shape)
          ultimately show ?thesis by (simp add: track_stuck)
        qed
        with 9 Suc.prems(2) assms(3,4,5) show ?thesis by simp
      qed
    qed
    from Suc.IH [OF bound next_t]
    have "angle_loop costmap pose end_angle radius inc (start + real (Suc k) * inc)
        (track t ?angle ?safe) = Some result" .
    with True safe show ?thesis
      by (simp only: angle_loop_step heading_after option.case)
  qed
qed

lemma two_closed_arcs_midpoint:
  assumes "0 < inc"
    and "\<forall>k. start + real k * inc \<le> end_angle \<longrightarrow>
           heading_is_safe costmap pose (start + real k * inc) radius
             = Some (a \<le> k \<and> k < b \<or> c \<le> k \<and> k < d)"
    and "a < b" and "b < c" and "c < d" and "start + real d * inc \<le> end_angle"
    and "start + real a * inc \<noteq> - 1" and "start + real b * inc \<noteq> - 1"
    and "start + real c * inc \<noteq> - 1" and "start + real d * inc \<noteq> - 1"
  shows "findBestDirection costmap pose start end_angle radius inc =
     Some (if d - c > b - a
           then (start + real c * inc + (start + real d * inc)) / 2
           else (start + real a * inc + (start + real b * inc)) / 2)"
proof -
  let ?result = "if start + real d * inc - (start + real c * inc)
                 > start + real b * inc - (start + real a * inc)
            then \<lparr>first_safe_angle = - 1, last_unsafe_angle = - 1,
                  final_safe_angle = start + real c * inc,
                  final_unsafe_angle = start + real d * inc\<rparr>
            else \<lparr>first_safe_angle = start + real c * inc,
                  last_unsafe_angle = start + real d * inc,
                  final_safe_angle = start + real a * inc,
                  final_unsafe_angle = start + real b * inc\<rparr>"
  obtain n where "end_angle < start + real n * inc"
    using sweep_bound [OF assms(1)] by blast
  then have bound: "end_angle < start + real (0 + n) * inc" by simp
  have loop: "angle_loop costmap pose end_angle radius inc (start + real 0 * inc)
      initial_tracker = Some ?result"
    by (rule angle_loop_two_arcs [OF assms refl bound]) simp
  have "real d * inc - real c * inc > real b * inc - real a * inc \<longleftrightarrow>
      real (d - c) * inc > real (b - a) * inc"
    using assms(3,5) by (simp add: of_nat_diff algebra_simps)
  also have "\<dots> \<longleftrightarrow> d - c > b - a" using assms(1) by simp
  finally have wider: "start + real d * inc - (start + real c * inc)
      > start + real b * inc - (start + real a * inc) \<longleftrightarrow> d - c > b - a" by simp
  show ?thesis
  proof (cases "d - c > b - a")
    case True
    with wider loop show ?thesis by (simp add: findBestDirection_def)
  next
    case False
    with wider loop show ?thesis by (simp add: findBestDirection_def)
  qed
qed

subsection \<open>The inner loop\<close>

lemma ray_loop_exit:
  "radius < r \<Longrightarrow> ray_loop costmap pose angle radius r = Some True"
  by (subst ray_loop.simps) simp

lemma ray_loop_step:
  "r \<le> radius \<Longrightarrow>
     ray_loop costmap pose angle radius r =
       (case sample_ok costmap pose angle r of
          None \<Rightarrow> None
        | Some ok \<Rightarrow>
            if ok then ray_loop costmap pose angle radius (r + resolution (metadata costmap))
            else Some False)"
  by (subst ray_loop.simps) simp






subsection \<open>The three by three grid\<close>

lemma floor_halves: "\<lfloor>1 / 2 :: real\<rfloor> = 0" "\<lfloor>3 / 2 :: real\<rfloor> = 1" "\<lfloor>5 / 2 :: real\<rfloor> = 2"
  by linarith+

lemma trig_three_halves_pi: "cos (3 * pi / 2) = 0" "sin (3 * pi / 2) = - 1"
  using cos_3over2_pi sin_3over2_pi by (simp_all add: mult.commute)

lemma resolution_grid3: "resolution (metadata (grid3 cells)) = 1"
  by (simp add: grid3_def)

lemmas grid3_sample_defs =
  sample_ok_def ray_x_def ray_y_def in_map_def in_grid_def cell_i_def cell_j_def
  static_cast_int_def data_at_def grid3_def centre_def Let_def floor_halves
  trig_three_halves_pi

lemma grid3_sample_middle:
  "length cells = 9 \<Longrightarrow> sample_ok (grid3 cells) centre angle 0 = Some (\<not> cells ! 4 \<ge> 253)"
  by (simp add: grid3_sample_defs)

lemma grid3_sample_east:
  "length cells = 9 \<Longrightarrow> sample_ok (grid3 cells) centre 0 1 = Some (\<not> cells ! 5 \<ge> 253)"
  by (simp add: grid3_sample_defs)

lemma grid3_sample_north:
  "length cells = 9 \<Longrightarrow> sample_ok (grid3 cells) centre (pi / 2) 1 = Some (\<not> cells ! 7 \<ge> 253)"
  by (simp add: grid3_sample_defs)

lemma grid3_sample_west:
  "length cells = 9 \<Longrightarrow> sample_ok (grid3 cells) centre pi 1 = Some (\<not> cells ! 3 \<ge> 253)"
  by (simp add: grid3_sample_defs)

lemma grid3_sample_south:
  "length cells = 9 \<Longrightarrow> sample_ok (grid3 cells) centre (3 * pi / 2) 1 = Some (\<not> cells ! 1 \<ge> 253)"
  by (simp add: grid3_sample_defs)

lemma grid3_heading:
  assumes "length cells = 9"
  shows "heading_is_safe (grid3 cells) centre angle 1 =
     (if cells ! 4 \<ge> 253 then Some False else sample_ok (grid3 cells) centre angle 1)"
proof -
  have "ray_loop (grid3 cells) centre angle 1 2 = Some True"
    by (rule ray_loop_exit) simp
  then have "ray_loop (grid3 cells) centre angle 1 1 = sample_ok (grid3 cells) centre angle 1"
    by (simp add: ray_loop_step resolution_grid3 split: option.splits)
  then show ?thesis
    using grid3_sample_middle [OF assms, of angle]
    by (simp add: heading_is_safe_def ray_loop_step resolution_grid3)
qed

lemma wall_north_headings:
  "heading_is_safe wall_north centre 0 1 = Some True"
  "heading_is_safe wall_north centre (pi / 2) 1 = Some False"
  "heading_is_safe wall_north centre pi 1 = Some True"
  "heading_is_safe wall_north centre (3 * pi / 2) 1 = Some True"
  unfolding wall_north_def
  by (simp_all add: grid3_heading grid3_sample_east grid3_sample_north grid3_sample_west
      grid3_sample_south)

lemma wall_east_north_headings:
  "heading_is_safe wall_east_north centre 0 1 = Some False"
  "heading_is_safe wall_east_north centre (pi / 2) 1 = Some False"
  "heading_is_safe wall_east_north centre pi 1 = Some True"
  "heading_is_safe wall_east_north centre (3 * pi / 2) 1 = Some True"
  unfolding wall_east_north_def
  by (simp_all add: grid3_heading grid3_sample_east grid3_sample_north grid3_sample_west
      grid3_sample_south)



lemma sweep_of_quarter_turns:
  assumes "heading_is_safe costmap centre 0 1 = Some east"
    and "heading_is_safe costmap centre (pi / 2) 1 = Some north"
    and "heading_is_safe costmap centre pi 1 = Some west"
    and "heading_is_safe costmap centre (3 * pi / 2) 1 = Some south"
  shows "angle_loop costmap centre (7 / 4 * pi) 1 (pi / 2) 0 t =
     Some (track (track (track (track t 0 east) (pi / 2) north) pi west) (3 * pi / 2) south)"
proof -
  have "angle_loop costmap centre (7 / 4 * pi) 1 (pi / 2) (3 * pi / 2 + pi / 2) t' = Some t'"
    for t'
    by (rule angle_loop_exit) simp
  then have "angle_loop costmap centre (7 / 4 * pi) 1 (pi / 2) (3 * pi / 2) t' =
      Some (track t' (3 * pi / 2) south)" for t'
    using assms(4) by (simp add: angle_loop_step)
  moreover have "pi + pi / 2 = 3 * pi / 2" by simp
  ultimately have "angle_loop costmap centre (7 / 4 * pi) 1 (pi / 2) pi t' =
      Some (track (track t' pi west) (3 * pi / 2) south)" for t'
    using assms(3) by (simp add: angle_loop_step)
  moreover have "pi / 2 + pi / 2 = pi" by simp
  ultimately have "angle_loop costmap centre (7 / 4 * pi) 1 (pi / 2) (pi / 2) t' =
      Some (track (track (track t' (pi / 2) north) pi west) (3 * pi / 2) south)" for t'
    using assms(2) by (simp add: angle_loop_step)
  then show ?thesis
    using assms(1) by (simp add: angle_loop_step)
qed

section \<open>The claims about findBestDirection\<close>

lemma findBestDirection_never_closed:
  assumes "0 < inc"
    and "\<forall>k. start_angle + real k * inc \<le> end_angle \<longrightarrow>
           heading_is_safe costmap pose (start_angle + real k * inc) radius = Some (m \<le> k)"
  shows "findBestDirection costmap pose start_angle end_angle radius inc = Some 0"
proof -
  obtain n where "end_angle < start_angle + real n * inc"
    using sweep_bound [OF assms(1)] by blast
  from angle_loop_never_closed [OF this assms(2), of initial_tracker]
  obtain t' where "angle_loop costmap pose end_angle radius inc start_angle initial_tracker
      = Some t'" and "chosen_arc t' = chosen_arc initial_tracker"
    by (auto simp add: initial_tracker_def)
  then show ?thesis
    by (simp add: findBestDirection_chosen chosen_arc_def initial_tracker_def)
qed

lemma pi_not_sentinel: "pi \<noteq> - 1" "pi / 2 \<noteq> - 1" "3 * pi / 2 \<noteq> - 1" "pi \<noteq> - 2"
  using pi_gt_zero by linarith+

lemmas track_defs = track_def open_arc_def close_arc_def keep_widest_def initial_tracker_def

text \<open>
  C1 (the code departs from the claim). In the three by three grid with a lethal cell
  to the north, swept over the headings \<open>0\<close>, \<open>\<pi>/2\<close>, \<open>\<pi>\<close>, \<open>3\<pi>/2\<close>, there are two
  free arcs: the single heading \<open>0\<close>, closed by the unsafe heading \<open>\<pi>/2\<close>, and the
  wider arc from \<open>\<pi>\<close> to \<open>3\<pi>/2\<close>, which lasts until the sweep ends. The call returns
  \<open>\<pi>/4\<close>, the midpoint of the narrower arc. (When both arcs are closed inside the
  sweep the wider one is selected: \<open>two_closed_arcs_midpoint\<close>.)
\<close>

theorem wider_arc_at_sweep_end_is_not_selected:
  "heading_is_safe wall_north centre 0 1 = Some True \<and>
   heading_is_safe wall_north centre (pi / 2) 1 = Some False \<and>
   heading_is_safe wall_north centre pi 1 = Some True \<and>
   heading_is_safe wall_north centre (3 * pi / 2) 1 = Some True \<and>
   findBestDirection wall_north centre 0 (7 / 4 * pi) 1 (pi / 2) = Some (pi / 4)"
proof -
  have "angle_loop wall_north centre (7 / 4 * pi) 1 (pi / 2) 0 initial_tracker =
      Some \<lparr>first_safe_angle = pi, last_unsafe_angle = - 1,
            final_safe_angle = 0, final_unsafe_angle = pi / 2\<rparr>"
    by (subst sweep_of_quarter_turns [OF wall_north_headings])
      (simp add: track_defs pi_not_sentinel)
  then have "findBestDirection wall_north centre 0 (7 / 4 * pi) 1 (pi / 2) = Some (pi / 4)"
    by (simp add: findBestDirection_def)
  with wall_north_headings show ?thesis by simp
qed

text \<open>
  C2 (the code departs from the claim). With lethal cells to the east and to the north,
  the headings \<open>0\<close> and \<open>\<pi>/2\<close> are unsafe and the only free arc runs from \<open>\<pi>\<close> to
  \<open>3\<pi>/2\<close>, the last heading of the sweep. The call returns \<open>0\<close>, an unsafe heading
  that lies two angle steps before the arc. (When the arc is closed inside the sweep the
  call returns the mean of its first heading and the closing heading, half a step past
  the middle of its safe headings: \<open>single_closed_arc_midpoint\<close>.)
\<close>

theorem single_arc_at_sweep_end_gives_zero:
  "heading_is_safe wall_east_north centre 0 1 = Some False \<and>
   heading_is_safe wall_east_north centre (pi / 2) 1 = Some False \<and>
   heading_is_safe wall_east_north centre pi 1 = Some True \<and>
   heading_is_safe wall_east_north centre (3 * pi / 2) 1 = Some True \<and>
   findBestDirection wall_east_north centre 0 (7 / 4 * pi) 1 (pi / 2) = Some 0"
proof -
  have "angle_loop wall_east_north centre (7 / 4 * pi) 1 (pi / 2) 0 initial_tracker =
      Some \<lparr>first_safe_angle = pi, last_unsafe_angle = - 1,
            final_safe_angle = 0, final_unsafe_angle = 0\<rparr>"
    by (subst sweep_of_quarter_turns [OF wall_east_north_headings])
      (simp add: track_defs pi_not_sentinel)
  then have "findBestDirection wall_east_north centre 0 (7 / 4 * pi) 1 (pi / 2) = Some 0"
    by (simp add: findBestDirection_def)
  with wall_east_north_headings show ?thesis by simp
qed







section \<open>The claims about the maneuver\<close>

subsection \<open>One cycle\<close>













subsection \<open>The cycles of a maneuver\<close>




subsection \<open>The concrete ticks\<close>










section \<open>The claims about onRun and the configuration\<close>

subsection \<open>The wait for the service\<close>

lemma wait_loop_answer:
  "service_found k \<or> \<not> ok k \<Longrightarrow>
     wait_loop service_found ok k = Some (service_found k, Suc k)"
  by (subst wait_loop.simps) auto

lemma wait_loop_again:
  "\<not> service_found k \<Longrightarrow> ok k \<Longrightarrow>
     wait_loop service_found ok k = wait_loop service_found ok (Suc k)"
  by (subst wait_loop.simps) simp

lemma wait_loop_first_answer:
  assumes "\<forall>i. k \<le> i \<and> i < n \<longrightarrow> \<not> service_found i \<and> ok i"
    and "service_found n \<or> \<not> ok n"
    and "k \<le> n"
  shows "wait_loop service_found ok k = Some (service_found n, Suc n)"
  using assms
proof (induction "n - k" arbitrary: k)
  case 0
  then have "k = n" by simp
  with "0.prems"(2) show ?case by (simp add: wait_loop_answer)
next
  case (Suc d)
  then have less: "k < n" by simp
  with Suc.prems(1) have "\<not> service_found k" "ok k" by simp_all
  then have "wait_loop service_found ok k = wait_loop service_found ok (Suc k)"
    by (rule wait_loop_again)
  moreover have "wait_loop service_found ok (Suc k) = Some (service_found n, Suc n)"
  proof (rule Suc.hyps(1))
    show "d = n - Suc k" using Suc.hyps(2) by simp
    show "\<forall>i. Suc k \<le> i \<and> i < n \<longrightarrow> \<not> service_found i \<and> ok i"
      using Suc.prems(1) by simp
    show "service_found n \<or> \<not> ok n" by (rule Suc.prems(2))
    show "Suc k \<le> n" using less by simp
  qed
  ultimately show ?case by simp
qed

lemma wait_loop_returns:
  assumes "wait_loop service_found ok k = Some result"
  shows "\<exists>n\<ge>k. service_found n \<or> \<not> ok n"
proof (rule wait_loop.raw_induct [where P = "\<lambda>f g k y. \<exists>n\<ge>k. f n \<or> \<not> g n", OF _ assms])
  fix loop :: "(nat \<Rightarrow> bool) \<Rightarrow> (nat \<Rightarrow> bool) \<Rightarrow> nat \<Rightarrow> (bool \<times> nat) option"
    and f g :: "nat \<Rightarrow> bool" and k :: nat and y :: "bool \<times> nat"
  assume later: "\<And>f g k y. loop f g k = Some y \<Longrightarrow> \<exists>n\<ge>k. f n \<or> \<not> g n"
    and step: "(if \<not> f k then if \<not> g k then Some (False, Suc k) else loop f g (Suc k)
                else Some (True, Suc k)) = Some y"
  show "\<exists>n\<ge>k. f n \<or> \<not> g n"
  proof (cases "f k \<or> \<not> g k")
    case True
    then show ?thesis by blast
  next
    case False
    with step have "loop f g (Suc k) = Some y" by simp
    then have "\<exists>n\<ge>Suc k. f n \<or> \<not> g n" by (rule later)
    then obtain n where "Suc k \<le> n" "f n \<or> \<not> g n" by blast
    then have "k \<le> n \<and> (f n \<or> \<not> g n)" by simp
    then show ?thesis by blast
  qed
qed

lemma wait_loop_forever:
  "wait_loop service_never shutdown_never k = None"
proof (cases "wait_loop service_never shutdown_never k")
  case None
  then show ?thesis .
next
  case (Some result)
  then have "\<exists>n\<ge>k. service_never n \<or> \<not> shutdown_never n" by (rule wait_loop_returns)
  then show ?thesis by (simp add: service_never_def shutdown_never_def)
qed

lemma all_free_fields:
  "resolution (metadata all_free) = 1"
  "origin_position_x (metadata all_free) = 0"
  "origin_position_y (metadata all_free) = 0"
  "sint (size_x (metadata all_free)) = 3"
  "sint (size_y (metadata all_free)) = 3"
  "data all_free = replicate 9 0"
  by (simp_all add: all_free_def grid3_def)

lemma all_free_sample:
  "sample_ok all_free centre angle 1 = Some True"
proof -
  let ?x = "ray_x centre angle 1" and ?y = "ray_y centre angle 1"
  have "?x = 3 / 2 + cos angle" by (simp add: ray_x_def centre_def)
  then have x: "1 / 2 \<le> ?x" "?x \<le> 5 / 2"
    using cos_ge_minus_one [of angle] cos_le_one [of angle] by linarith+
  have "?y = 3 / 2 + sin angle" by (simp add: ray_y_def centre_def)
  then have y: "1 / 2 \<le> ?y" "?y \<le> 5 / 2"
    using sin_ge_minus_one [of angle] sin_le_one [of angle] by linarith+
  have inside: "in_map all_free ?x ?y"
    using x y by (simp add: in_map_def all_free_fields)
  have i: "0 \<le> \<lfloor>?x\<rfloor>" "\<lfloor>?x\<rfloor> < 3" using x by linarith+
  have j: "0 \<le> \<lfloor>?y\<rfloor>" "\<lfloor>?y\<rfloor> < 3" using y by linarith+
  have ci: "cell_i all_free ?x = \<lfloor>?x\<rfloor>"
    using x by (simp add: cell_i_def static_cast_int_def all_free_fields)
  have cj: "cell_j all_free ?y = \<lfloor>?y\<rfloor>"
    using y by (simp add: cell_j_def static_cast_int_def all_free_fields)
  have cell: "in_grid all_free (cell_i all_free ?x) (cell_j all_free ?y)"
    using i j by (simp add: ci cj in_grid_def all_free_fields)
  have "0 \<le> \<lfloor>?x\<rfloor> + \<lfloor>?y\<rfloor> * 3" "\<lfloor>?x\<rfloor> + \<lfloor>?y\<rfloor> * 3 < 9" using i j by linarith+
  then have "data_at all_free (cell_i all_free ?x
      + cell_j all_free ?y * sint (size_x (metadata all_free))) = Some 0"
    by (simp add: ci cj data_at_def all_free_fields)
  with inside cell show ?thesis
    by (simp add: sample_ok_def Let_def all_free_fields)
qed

lemma all_free_heading: "heading_is_safe all_free centre angle 1 = Some True"
proof -
  have "heading_is_safe (grid3 (replicate 9 0)) centre angle 1 =
      sample_ok (grid3 (replicate 9 0)) centre angle 1"
    by (subst grid3_heading) simp_all
  with all_free_sample [of angle] show ?thesis by (simp add: all_free_def)
qed

lemma all_free_direction: "findBestDirection all_free centre (- pi) pi 1 (pi / 32) = Some 0"
proof (rule findBestDirection_never_closed [where m = 0])
  show "0 < pi / 32" by simp
  show "\<forall>k. - pi + real k * (pi / 32) \<le> pi \<longrightarrow>
      heading_is_safe all_free centre (- pi + real k * (pi / 32)) 1 = Some (0 \<le> k)"
    by (simp add: all_free_heading)
qed

lemma run_after_late_service:
  "onRun backing_up (run_env service_from_third_call shutdown_never) goal_two_metres =
     Some (SUCCEEDED,
       backing_up\<lparr>twist_x := 1 / 2, twist_y := 0, command_x := 2,
         command_time_allowance := 5000000000, end_time := 5000000000,
         initial_pose := \<lparr>position_x = 3 / 2, position_y = 3 / 2, yaw = 0\<rparr>\<rparr>)"
proof -
  have "wait_loop service_from_third_call shutdown_never 0 =
      Some (service_from_third_call 2, Suc 2)"
    by (rule wait_loop_first_answer)
      (simp_all add: service_from_third_call_def shutdown_never_def)
  then have loop: "wait_loop service_from_third_call shutdown_never 0 = Some (True, 3)"
    by (simp add: service_from_third_call_def numeral_3_eq_3)
  have pose: "\<lparr>pose_x = 3 / 2, pose_y = 3 / 2, pose_theta = 0\<rparr> = centre"
    by (simp add: centre_def)
  have radius: "max_radius backing_up = 1" by (simp add: backing_up_def)
  show ?thesis
    by (simp add: onRun_def run_env_def loop pose radius all_free_direction
        goal_two_metres_def)
qed

text \<open>
  C8 (the claim fails as stated). When the service never answers and the process is
  never shut down, the run does not return at all; and when the service answers only the
  third one-second wait, the first two waits having failed, the run goes on and returns
  \<open>SUCCEEDED\<close> instead of failing.
\<close>

theorem service_wait_is_not_bounded:
  "onRun backing_up (run_env service_never shutdown_never) goal_two_metres = None \<and>
   \<not> service_from_third_call 0 \<and>
   map_option fst
     (onRun backing_up (run_env service_from_third_call shutdown_never) goal_two_metres)
     = Some SUCCEEDED"
proof -
  have "onRun backing_up (run_env service_never shutdown_never) goal_two_metres = None"
    by (simp add: onRun_def run_env_def wait_loop_forever)
  moreover have "\<not> service_from_third_call 0"
    by (simp add: service_from_third_call_def)
  ultimately show ?thesis by (simp add: run_after_late_service)
qed

text \<open>
  C8 (as amended). The loop makes one-second waits until the first call \<open>n\<close> at which
  the service is there or the process is shutting down, \<open>n + 1\<close> waits in all; if the
  service is not there at that call, the run returns \<open>FAILED\<close> at once and leaves the
  behaviour as it was.
\<close>

theorem service_wait_ends_at_first_answer:
  assumes "\<forall>k<n. \<not> wait_for_service env k \<and> rclcpp_ok env k"
    and "wait_for_service env n \<or> \<not> rclcpp_ok env n"
  shows "wait_loop (wait_for_service env) (rclcpp_ok env) 0
           = Some (wait_for_service env n, Suc n) \<and>
         (\<not> wait_for_service env n \<longrightarrow> onRun self env command = Some (FAILED, self))"
proof -
  have loop: "wait_loop (wait_for_service env) (rclcpp_ok env) 0
      = Some (wait_for_service env n, Suc n)"
    using assms by (intro wait_loop_first_answer) simp_all
  then show ?thesis by (simp add: onRun_def)
qed

theorem service_wait_ends_at_first_answer_witness:
  "\<not> wait_for_service (run_env service_never shutdown_after_second_call) 0 \<and>
   rclcpp_ok (run_env service_never shutdown_after_second_call) 0 \<and>
   \<not> wait_for_service (run_env service_never shutdown_after_second_call) 1 \<and>
   \<not> rclcpp_ok (run_env service_never shutdown_after_second_call) 1 \<and>
   wait_loop service_never shutdown_after_second_call 0 = Some (False, 2) \<and>
   onRun backing_up (run_env service_never shutdown_after_second_call) goal_two_metres
     = Some (FAILED, backing_up)"
proof -
  let ?env = "run_env service_never shutdown_after_second_call"
  have calls: "\<not> wait_for_service ?env 0" "rclcpp_ok ?env 0"
    "\<not> wait_for_service ?env 1" "\<not> rclcpp_ok ?env 1"
    by (simp_all add: run_env_def service_never_def shutdown_after_second_call_def)
  have before: "\<forall>k<1. \<not> wait_for_service ?env k \<and> rclcpp_ok ?env k"
    using calls by simp
  have answer: "wait_for_service ?env 1 \<or> \<not> rclcpp_ok ?env 1"
    using calls by simp
  have fields: "wait_for_service ?env = service_never"
    "rclcpp_ok ?env = shutdown_after_second_call"
    by (simp_all add: run_env_def)
  from service_wait_ends_at_first_answer [OF before answer, of backing_up goal_two_metres]
    calls fields
  show ?thesis by (simp add: numeral_2_eq_2)
qed

subsection \<open>The lethal threshold\<close>





end
